theory Spec2Isabelle
  imports Main "HOL-Library.Word" "HOL-Library.Multiset"
begin

section \<open>Data model\<close>

text \<open>
  \<^verbatim>\<open>config.ModelConfig\<close>: one concrete endpoint configuration.  \<^verbatim>\<open>ModelName\<close> is the
  user-facing alias (not unique), \<^verbatim>\<open>Model\<close> the protocol-prefixed target identifier.
\<close>

record ModelConfig =
  ModelName :: string
  Model :: string
  APIBase :: string
  APIKey :: string
  Proxy :: string
  AuthMethod :: string
  ConnectMode :: string
  RPM :: int
  MaxTokensField :: string

text \<open>
  The two lookups fail with \<^verbatim>\<open>fmt.Errorf("model %q not found", modelName)\<close> (registry) and
  \<^verbatim>\<open>fmt.Errorf("model %q not found in model_list or providers", modelName)\<close> (configuration
  object); the constructors carry the model name.
\<close>

datatype error = NotFound string | NotFoundInModelList string

text \<open>
  \<^verbatim>\<open>providers.ModelRegistry\<close>: \<^verbatim>\<open>configs\<close> maps a model name to its slice of configurations,
  \<^verbatim>\<open>counters\<close> maps a model name to the value held by its \<^verbatim>\<open>*atomic.Uint64\<close>.  The mutex
  is not modelled: every operation is taken as one atomic step.
\<close>

record ModelRegistry =
  configs :: "string \<rightharpoonup> ModelConfig list"
  counters :: "string \<rightharpoonup> 64 word"

section \<open>The model registry\<close>

text \<open>Reading a Go map of slices at a missing key yields the nil slice, of length 0.\<close>

definition slice_at :: "(string \<rightharpoonup> 'a list) \<Rightarrow> string \<Rightarrow> 'a list" where
  "slice_at m k = (case m k of None \<Rightarrow> [] | Some xs \<Rightarrow> xs)"

text \<open>
  First loop of \<^verbatim>\<open>NewModelRegistry\<close>:
  \<^verbatim>\<open>r.configs[cfg.ModelName] = append(r.configs[cfg.ModelName], cfg)\<close> for each element.
\<close>

fun group_configs ::
  "ModelConfig list \<Rightarrow> (string \<rightharpoonup> ModelConfig list) \<Rightarrow> (string \<rightharpoonup> ModelConfig list)" where
  "group_configs [] m = m"
| "group_configs (cfg # rest) m =
     group_configs rest (m(ModelName cfg \<mapsto> slice_at m (ModelName cfg) @ [cfg]))"

text \<open>
  Second loop of \<^verbatim>\<open>NewModelRegistry\<close>: a fresh counter (value 0) for every name whose slice
  has more than one element.  The loop ranges over the keys of the map, its result does not
  depend on the iteration order.
\<close>

definition init_counters :: "(string \<rightharpoonup> ModelConfig list) \<Rightarrow> (string \<rightharpoonup> 64 word)" where
  "init_counters m =
     (\<lambda>name. case m name of
        None \<Rightarrow> None
      | Some cfgs \<Rightarrow> if length cfgs > 1 then Some 0 else None)"

definition NewModelRegistry :: "ModelConfig list \<Rightarrow> ModelRegistry" where
  "NewModelRegistry modelList =
     (let cs = group_configs modelList Map.empty
      in \<lparr>configs = cs, counters = init_counters cs\<rparr>)"

text \<open>
  \<^verbatim>\<open>GetModelConfig\<close>.  The result is the error or the selected configuration, together with
  the registry after the call.  \<^verbatim>\<open>counter.Add(1)\<close> stores and returns the incremented
  64-bit value; \<^verbatim>\<open>uint64(len(configs))\<close> is the exact length (a Go \<^verbatim>\<open>int\<close> is non-negative
  here and below \<open>2 ^ 63\<close>), so the remainder is taken on the numbers the two words denote.
\<close>

definition GetModelConfig ::
  "ModelRegistry \<Rightarrow> string \<Rightarrow> (error + ModelConfig) \<times> ModelRegistry" where
  "GetModelConfig r modelName =
     (case configs r modelName of
        None \<Rightarrow> (Inl (NotFound modelName), r)
      | Some cfgs \<Rightarrow>
          if length cfgs = 0 then (Inl (NotFound modelName), r)
          else if length cfgs = 1 then (Inr (cfgs ! 0), r)
          else (case counters r modelName of
                  None \<Rightarrow> (Inr (cfgs ! 0), r)
                | Some c \<Rightarrow>
                    let c' = c + 1;
                        idx = unat c' mod length cfgs
                    in (Inr (cfgs ! idx), r\<lparr>counters := (counters r)(modelName \<mapsto> c')\<rparr>)))"

text \<open>
  \<^verbatim>\<open>AddConfig\<close>: append, then create the counter when the slice now has more than one
  element and no counter is stored (\<^verbatim>\<open>r.counters[cfg.ModelName] == nil\<close>).
\<close>

definition AddConfig :: "ModelRegistry \<Rightarrow> ModelConfig \<Rightarrow> ModelRegistry" where
  "AddConfig r cfg =
     (let name = ModelName cfg;
          cs = (configs r)(name \<mapsto> slice_at (configs r) name @ [cfg])
      in if length (slice_at cs name) > 1 \<and> counters r name = None
         then \<lparr>configs = cs, counters = (counters r)(name \<mapsto> 0)\<rparr>
         else \<lparr>configs = cs, counters = counters r\<rparr>)"

text \<open>\<^verbatim>\<open>RemoveConfig\<close>: \<^verbatim>\<open>delete\<close> on both maps.\<close>

definition RemoveConfig :: "ModelRegistry \<Rightarrow> string \<Rightarrow> ModelRegistry" where
  "RemoveConfig r modelName =
     \<lparr>configs = (configs r)(modelName := None), counters = (counters r)(modelName := None)\<rparr>"

text \<open>\<^verbatim>\<open>ConfigCount\<close>: \<^verbatim>\<open>len(r.configs[modelName])\<close>.\<close>

definition ConfigCount :: "ModelRegistry \<Rightarrow> string \<Rightarrow> nat" where
  "ConfigCount r modelName = length (slice_at (configs r) modelName)"

text \<open>
  A caller that resolves the same name \<open>k\<close> times in a row, with nothing else touching the
  registry: the results in call order and the registry after the last call.
\<close>

fun resolves :: "ModelRegistry \<Rightarrow> string \<Rightarrow> nat \<Rightarrow> (error + ModelConfig) list \<times> ModelRegistry" where
  "resolves r modelName 0 = ([], r)"
| "resolves r modelName (Suc k) =
     (case GetModelConfig r modelName of
        (res, r') \<Rightarrow> (case resolves r' modelName k of (ress, r'') \<Rightarrow> (res # ress, r'')))"

text \<open>The registries that the exported operations can produce.\<close>

inductive reachable :: "ModelRegistry \<Rightarrow> bool" where
  reach_new: "reachable (NewModelRegistry modelList)"
| reach_add: "reachable r \<Longrightarrow> reachable (AddConfig r cfg)"
| reach_remove: "reachable r \<Longrightarrow> reachable (RemoveConfig r modelName)"
| reach_get: "reachable r \<Longrightarrow> reachable (snd (GetModelConfig r modelName))"

text \<open>
  The path condition of the branch of \<^verbatim>\<open>GetModelConfig\<close> commented "Should not happen":
  the name is present with more than one configuration and has no counter.
\<close>

definition missing_counter_branch :: "ModelRegistry \<Rightarrow> string \<Rightarrow> bool" where
  "missing_counter_branch r modelName =
     (case configs r modelName of
        None \<Rightarrow> False
      | Some cfgs \<Rightarrow> length cfgs \<noteq> 0 \<and> length cfgs \<noteq> 1 \<and> counters r modelName = None)"

section \<open>Lookup on the configuration object\<close>

text \<open>
  \<^verbatim>\<open>config.Config\<close>, restricted to the two fields that \<^verbatim>\<open>Config.GetModelConfig\<close> reads or
  writes; every other field lives in the record's extension slot and is carried along
  unchanged.  \<^verbatim>\<open>rrCounters\<close> is a Go map that may be nil (\<open>None\<close>).
\<close>

record Config =
  ModelList :: "ModelConfig list"
  rrCounters :: "(string \<rightharpoonup> 64 word) option"

text \<open>The loop collecting \<^verbatim>\<open>matches\<close>, with the slice built so far as accumulator.\<close>

fun collect_matches :: "ModelConfig list \<Rightarrow> string \<Rightarrow> ModelConfig list \<Rightarrow> ModelConfig list" where
  "collect_matches [] modelName matches = matches"
| "collect_matches (c # rest) modelName matches =
     collect_matches rest modelName (if ModelName c = modelName then matches @ [c] else matches)"

text \<open>
  \<^verbatim>\<open>Config.GetModelConfig\<close>.  A nil \<^verbatim>\<open>rrCounters\<close> is replaced by an empty map and a missing
  counter by a fresh one (value 0) before \<^verbatim>\<open>counter.Add(1)\<close>.
\<close>

definition Config_GetModelConfig ::
  "'a Config_scheme \<Rightarrow> string \<Rightarrow> (error + ModelConfig) \<times> 'a Config_scheme" where
  "Config_GetModelConfig c modelName =
     (let matches = collect_matches (ModelList c) modelName []
      in if length matches = 0 then (Inl (NotFoundInModelList modelName), c)
         else if length matches = 1 then (Inr (matches ! 0), c)
         else
           let rr = (case rrCounters c of None \<Rightarrow> Map.empty | Some m \<Rightarrow> m);
               counter = (case rr modelName of None \<Rightarrow> 0 | Some v \<Rightarrow> v);
               counter' = counter + 1;
               idx = unat counter' mod length matches
           in (Inr (matches ! idx), c\<lparr>rrCounters := Some (rr(modelName \<mapsto> counter'))\<rparr>))"

fun Config_resolves ::
  "'a Config_scheme \<Rightarrow> string \<Rightarrow> nat \<Rightarrow> (error + ModelConfig) list \<times> 'a Config_scheme" where
  "Config_resolves c modelName 0 = ([], c)"
| "Config_resolves c modelName (Suc k) =
     (case Config_GetModelConfig c modelName of
        (res, c') \<Rightarrow> (case Config_resolves c' modelName k of (ress, c'') \<Rightarrow> (res # ress, c'')))"

section \<open>Protocol prefix\<close>

text \<open>
  \<^verbatim>\<open>ModelConfig.ParseProtocol\<close>: the loop over the byte positions of \<^verbatim>\<open>c.Model\<close>, started at
  position 0.  A Go string is a byte sequence, as a HOL \<open>string\<close> is.
\<close>

function ParseProtocol_from :: "string \<Rightarrow> nat \<Rightarrow> string \<times> string" where
  "ParseProtocol_from model i =
     (if i < length model
      then (if model ! i = CHR ''/''
            then (take i model, drop (i + 1) model)
            else ParseProtocol_from model (i + 1))
      else (''openai'', model))"
  by pat_completeness auto
termination
  by (relation "measure (\<lambda>(model, i). length model - i)") auto

declare ParseProtocol_from.simps [simp del]

definition ParseProtocol :: "'a ModelConfig_scheme \<Rightarrow> string \<times> string" where
  "ParseProtocol c = ParseProtocol_from (Model c) 0"

section \<open>Error taxonomy and cooldown tracker\<close>

text \<open>
  Modelled from the spec: the error classifier, the cooldown tracker and the fallback
  orchestrator (\<^verbatim>\<open>pkg/providers/error_classifier.go\<close>, \<^verbatim>\<open>pkg/providers/fallback.go\<close> and the
  cooldown code they use) are named by the documentation but their source is not part of
  the files at hand.  The definitions of this section and the next follow sections 4.2 to
  4.4 of the specification.
\<close>

datatype ErrorKind =
  RateLimit | Timeout | ServerError | Billing | Auth
| FormatError | UnsupportedInput | UserAbort | Unknown

text \<open>Modelled from the spec: the column "Retriable" of the taxonomy table.\<close>

fun retriable :: "ErrorKind \<Rightarrow> bool" where
  "retriable RateLimit = True"
| "retriable Timeout = True"
| "retriable ServerError = True"
| "retriable Billing = True"
| "retriable Auth = True"
| "retriable FormatError = False"
| "retriable UnsupportedInput = False"
| "retriable UserAbort = False"
| "retriable Unknown = False"

text \<open>
  Modelled from the spec: the classifier as a rule table, an ordered list of
  (predicate, kind) pairs evaluated top to bottom; a failure that matches no rule is
  \<open>Unknown\<close>.  The signal predicates themselves are the table's content and are injected.
\<close>

fun kind_of :: "(('e \<Rightarrow> bool) \<times> ErrorKind) list \<Rightarrow> 'e \<Rightarrow> ErrorKind" where
  "kind_of [] rawError = Unknown"
| "kind_of ((p, k) # rules) rawError = (if p rawError then k else kind_of rules rawError)"

definition classify :: "(('e \<Rightarrow> bool) \<times> ErrorKind) list \<Rightarrow> 'e \<Rightarrow> ErrorKind \<times> bool" where
  "classify rules rawError = (let k = kind_of rules rawError in (k, retriable k))"

text \<open>
  Modelled from the spec: the fixed durations, in seconds.  The table has no entry for
  the kinds that are not retriable; \<open>recordFailure\<close> never reads it for them.
\<close>

fun default_durationFor :: "ErrorKind \<Rightarrow> int" where
  "default_durationFor RateLimit = 60"
| "default_durationFor Timeout = 30"
| "default_durationFor ServerError = 120"
| "default_durationFor Auth = 300"
| "default_durationFor Billing = 120"
| "default_durationFor FormatError = 0"
| "default_durationFor UnsupportedInput = 0"
| "default_durationFor UserAbort = 0"
| "default_durationFor Unknown = 0"

text \<open>Modelled from the spec: \<open>CooldownEntry\<close>; timestamps are seconds.\<close>

record CooldownEntry =
  suppressedUntil :: int
  lastErrorKind :: ErrorKind

text \<open>
  Modelled from the spec: the tracker owns the map from endpoint identity to entry and
  holds the injected duration table.
\<close>

record 'id CooldownTracker =
  durationFor :: "ErrorKind \<Rightarrow> int"
  entries :: "'id \<rightharpoonup> CooldownEntry"

definition NewCooldownTracker :: "(ErrorKind \<Rightarrow> int) \<Rightarrow> 'id CooldownTracker" where
  "NewCooldownTracker table = \<lparr>durationFor = table, entries = Map.empty\<rparr>"

text \<open>
  Modelled from the spec: \<open>isEligible\<close> is true iff no entry exists for the identity or
  \<open>now \<ge> entry.suppressedUntil\<close>.
\<close>

definition isEligible :: "'id CooldownTracker \<Rightarrow> 'id \<Rightarrow> int \<Rightarrow> bool" where
  "isEligible tr ident now =
     (case entries tr ident of None \<Rightarrow> True | Some e \<Rightarrow> now \<ge> suppressedUntil e)"

text \<open>
  Modelled from the spec: \<open>recordFailure\<close> sets or refreshes the entry with
  \<open>suppressedUntil = now + durationFor(kind)\<close> when the kind is retriable and leaves the
  state untouched otherwise.
\<close>

definition recordFailure ::
  "'id CooldownTracker \<Rightarrow> 'id \<Rightarrow> ErrorKind \<Rightarrow> int \<Rightarrow> 'id CooldownTracker" where
  "recordFailure tr ident kind now =
     (if retriable kind
      then tr\<lparr>entries := (entries tr)(ident \<mapsto>
             \<lparr>suppressedUntil = now + durationFor tr kind, lastErrorKind = kind\<rparr>)\<rparr>
      else tr)"

text \<open>Modelled from the spec: \<open>recordSuccess\<close> deletes any entry of the identity.\<close>

definition recordSuccess :: "'id CooldownTracker \<Rightarrow> 'id \<Rightarrow> 'id CooldownTracker" where
  "recordSuccess tr ident = tr\<lparr>entries := (entries tr)(ident := None)\<rparr>"

section \<open>Fallback orchestrator\<close>

text \<open>
  Modelled from the spec: the identity of an endpoint for cooldown purposes is derived from
  the concrete target identifier and the credentials (API key, base URL, proxy), not from
  the logical name.
\<close>

definition endpointIdentity :: "ModelConfig \<Rightarrow> string \<times> string \<times> string \<times> string" where
  "endpointIdentity ep = (Model ep, APIKey ep, APIBase ep, Proxy ep)"

text \<open>
  Modelled from the spec: \<open>AttemptRecord\<close>.  A candidate skipped because its endpoint is
  cooling down has no chosen endpoint, no outcome and no error kind.
\<close>

datatype Outcome = Success | RetriableFailure | NonRetriableFailure

record AttemptRecord =
  candidateName :: string
  chosenEndpoint :: "ModelConfig option"
  outcome :: "Outcome option"
  errorKind :: "ErrorKind option"
  elapsed :: int

text \<open>
  Modelled from the spec: what \<open>execute\<close> hands back: the result of the work, a single
  non-retriable error with its kind attached, or the exhaustion report with the attempts.
\<close>

datatype ('e, 'a) Result =
  Succeeded 'a
| Failed ErrorKind 'e
| ExhaustedError "AttemptRecord list"

text \<open>
  Modelled from the spec: the state that one \<open>execute\<close> call queries and signals: the
  registry (the one of the source), the cooldown tracker and the current time.  The field
  \<open>invoked\<close> is a log of the calls of \<open>work\<close>, candidate name and endpoint in call order; it
  is only written, never read, and serves to state which candidates were invoked.
\<close>

record EngineState =
  registry :: ModelRegistry
  tracker :: "(string \<times> string \<times> string \<times> string) CooldownTracker"
  clock :: int
  invoked :: "(string \<times> ModelConfig) list"

text \<open>
  Modelled from the spec: step 2 of the state machine, over the candidates that remain.
  \<open>work\<close> receives the endpoint and the time of the call and returns its result with the
  time it took.  (a) an unresolved candidate is skipped silently; (b) a cooling endpoint is
  skipped with an attempt record and without calling \<open>work\<close>; (c) success records the
  success and returns; (d) a non-retriable failure aborts the walk with the classified
  error; (e) a retriable failure records the failure, appends the attempt and advances.
  Step 3: an exhausted sequence fails with the attempts made.
\<close>

fun walk ::
  "(('e \<Rightarrow> bool) \<times> ErrorKind) list \<Rightarrow> (ModelConfig \<Rightarrow> int \<Rightarrow> ('e + 'a) \<times> int) \<Rightarrow>
   string list \<Rightarrow> EngineState \<Rightarrow> AttemptRecord list \<Rightarrow> ('e, 'a) Result \<times> EngineState" where
  "walk rules work [] st attempts = (ExhaustedError attempts, st)"
| "walk rules work (name # rest) st attempts =
     (case GetModelConfig (registry st) name of
        (Inl notFound, reg') \<Rightarrow> walk rules work rest (st\<lparr>registry := reg'\<rparr>) attempts
      | (Inr ep, reg') \<Rightarrow>
          if \<not> isEligible (tracker st) (endpointIdentity ep) (clock st)
          then walk rules work rest (st\<lparr>registry := reg'\<rparr>)
                 (attempts @ [\<lparr>candidateName = name, chosenEndpoint = None, outcome = None,
                                errorKind = None, elapsed = 0\<rparr>])
          else
            (case work ep (clock st) of
               (Inr res, el) \<Rightarrow>
                 (Succeeded res,
                  st\<lparr>registry := reg',
                     tracker := recordSuccess (tracker st) (endpointIdentity ep),
                     clock := clock st + el,
                     invoked := invoked st @ [(name, ep)]\<rparr>)
             | (Inl rawError, el) \<Rightarrow>
                 (case classify rules rawError of
                    (kind, False) \<Rightarrow>
                      (Failed kind rawError,
                       st\<lparr>registry := reg', clock := clock st + el,
                          invoked := invoked st @ [(name, ep)]\<rparr>)
                  | (kind, True) \<Rightarrow>
                      walk rules work rest
                        (st\<lparr>registry := reg',
                            tracker := recordFailure (tracker st) (endpointIdentity ep) kind
                                         (clock st + el),
                            clock := clock st + el,
                            invoked := invoked st @ [(name, ep)]\<rparr>)
                        (attempts @ [\<lparr>candidateName = name, chosenEndpoint = Some ep,
                                       outcome = Some RetriableFailure, errorKind = Some kind,
                                       elapsed = el\<rparr>]))))"

text \<open>
  Modelled from the spec: \<open>execute\<close> builds the candidate sequence
  \<open>[primaryName] + fallbackNames\<close> and walks it with no attempt recorded yet.
\<close>

definition execute ::
  "(('e \<Rightarrow> bool) \<times> ErrorKind) list \<Rightarrow> (ModelConfig \<Rightarrow> int \<Rightarrow> ('e + 'a) \<times> int) \<Rightarrow>
   string \<Rightarrow> string list \<Rightarrow> EngineState \<Rightarrow> ('e, 'a) Result \<times> EngineState" where
  "execute rules work primaryName fallbackNames st =
     walk rules work ([primaryName] @ fallbackNames) st []"

section \<open>Concrete inputs\<close>

text \<open>An endpoint record with the given alias and API key, used for concrete runs.\<close>

definition example_endpoint :: "string \<Rightarrow> string \<Rightarrow> ModelConfig" where
  "example_endpoint name key =
     \<lparr>ModelName = name, Model = ''openai/gpt-4o'', APIBase = [], APIKey = key, Proxy = [],
      AuthMethod = [], ConnectMode = [], RPM = 0, MaxTokensField = []\<rparr>"

text \<open>
  A registry with three records under the name \<open>m\<close> whose counter holds \<open>2 ^ 64 - 2\<close>: the
  state after that many round-robin lookups on a fresh registry.
\<close>

definition wrapping_registry :: ModelRegistry where
  "wrapping_registry =
     \<lparr>configs = [''m'' \<mapsto> [example_endpoint ''m'' ''A'', example_endpoint ''m'' ''B'',
                            example_endpoint ''m'' ''C'']],
      counters = [''m'' \<mapsto> 18446744073709551614]\<rparr>"

text \<open>An engine state over a fresh registry with the candidates \<open>p\<close>, \<open>f1\<close> and \<open>f2\<close>.\<close>

definition example_state :: EngineState where
  "example_state =
     \<lparr>registry = NewModelRegistry [example_endpoint ''p'' ''k1'', example_endpoint ''f1'' ''k2'',
                                    example_endpoint ''f2'' ''k3''],
      tracker = NewCooldownTracker default_durationFor,
      clock = 0,
      invoked = []\<rparr>"

text \<open>A work function that rejects every call as malformed after one second.\<close>

definition failing_work :: "ModelConfig \<Rightarrow> int \<Rightarrow> (string + unit) \<times> int" where
  "failing_work ep now = (Inl ''string should match pattern'', 1)"

definition example_rules :: "((string \<Rightarrow> bool) \<times> ErrorKind) list" where
  "example_rules =
     [(\<lambda>e. e = ''rate_limit'', RateLimit),
      (\<lambda>e. e = ''string should match pattern'', FormatError)]"

section \<open>The invariant of the registry\<close>

text \<open>A counter is stored for exactly the names that have more than one configuration.\<close>

definition reachable_inv :: "ModelRegistry \<Rightarrow> bool" where
  "reachable_inv r = (\<forall>n. counters r n \<noteq> None \<longleftrightarrow> 1 < length (slice_at (configs r) n))"

section \<open>Auxiliary facts\<close>

lemma four_eq: "(4::nat) = Suc (Suc (Suc (Suc 0)))"
  by simp

lemma collect_matches_filter:
  "collect_matches xs n acc = acc @ filter (\<lambda>c. ModelName c = n) xs"
  by (induction xs arbitrary: acc) simp_all

lemma GetModelConfig_multi:
  assumes "configs r n = Some cfgs" "1 < length cfgs" "counters r n = Some c"
  shows "GetModelConfig r n =
     (Inr (cfgs ! (unat (c + 1) mod length cfgs)), r\<lparr>counters := (counters r)(n \<mapsto> c + 1)\<rparr>)"
  using assms by (auto simp add: GetModelConfig_def Let_def)

lemma resolves_multi:
  assumes "configs r n = Some cfgs" "1 < length cfgs" "counters r n = Some c"
  shows "resolves r n k =
     (map (\<lambda>i. Inr (cfgs ! (unat (c + of_nat (Suc i)) mod length cfgs))) [0..<k],
      r\<lparr>counters := (counters r)(n \<mapsto> c + of_nat k)\<rparr>)"
  using assms
proof (induction k arbitrary: r c)
  case 0
  then show ?case by (simp add: map_upd_triv)
next
  case (Suc k)
  let ?r' = "r\<lparr>counters := (counters r)(n \<mapsto> c + 1)\<rparr>"
  have g: "GetModelConfig r n = (Inr (cfgs ! (unat (c + 1) mod length cfgs)), ?r')"
    using Suc.prems by (rule GetModelConfig_multi)
  have ih0: "resolves ?r' n k =
     (map (\<lambda>i. Inr (cfgs ! (unat (c + 1 + of_nat (Suc i)) mod length cfgs))) [0..<k],
      ?r'\<lparr>counters := (counters ?r')(n \<mapsto> c + 1 + of_nat k)\<rparr>)"
    by (rule Suc.IH) (use Suc.prems in simp_all)
  have w: "c + 1 + of_nat (Suc i) = c + of_nat (Suc (Suc i))" for i
    by simp
  have w2: "c + 1 + of_nat k = c + of_nat (Suc k)"
    by simp
  have st: "?r'\<lparr>counters := (counters ?r')(n \<mapsto> c + of_nat (Suc k))\<rparr>
      = r\<lparr>counters := (counters r)(n \<mapsto> c + of_nat (Suc k))\<rparr>"
    by simp
  have ih: "resolves ?r' n k =
     (map (\<lambda>i. Inr (cfgs ! (unat (c + of_nat (Suc (Suc i))) mod length cfgs))) [0..<k],
      r\<lparr>counters := (counters r)(n \<mapsto> c + of_nat (Suc k))\<rparr>)"
    using ih0 by (simp only: w w2 st)
  have one: "(of_nat (Suc 0) :: 64 word) = 1"
    by simp
  have shift: "map (\<lambda>i. Inr (cfgs ! (unat (c + of_nat (Suc i)) mod length cfgs)) :: error + ModelConfig) [0..<Suc k]
      = Inr (cfgs ! (unat (c + 1) mod length cfgs)) #
        map (\<lambda>i. Inr (cfgs ! (unat (c + of_nat (Suc (Suc i))) mod length cfgs))) [0..<k]"
    using one by (simp add: upt_conv_Cons map_Suc_upt [symmetric] del: upt_Suc of_nat_Suc)
  have "resolves r n (Suc k) =
      (Inr (cfgs ! (unat (c + 1) mod length cfgs)) # fst (resolves ?r' n k), snd (resolves ?r' n k))"
    by (simp add: g split: prod.split)
  also have "\<dots> = (map (\<lambda>i. Inr (cfgs ! (unat (c + of_nat (Suc i)) mod length cfgs))) [0..<Suc k],
      r\<lparr>counters := (counters r)(n \<mapsto> c + of_nat (Suc k))\<rparr>)"
    unfolding shift ih by (simp only: fst_conv snd_conv)
  finally show ?case .
qed

lemma resolves_three:
  assumes "ModelName A = m" "ModelName B = m" "ModelName C = m"
  shows "fst (resolves (NewModelRegistry [A, B, C]) m 4) = [Inr B, Inr C, Inr A, Inr B]"
proof -
  let ?r = "NewModelRegistry [A, B, C]"
  have c: "configs ?r m = Some [A, B, C]" and k: "counters ?r m = Some 0"
    using assms by (simp_all add: NewModelRegistry_def Let_def init_counters_def slice_at_def)
  have u: "[0..<4] = [0, Suc 0, 2, 3]"
    by (simp add: upt_conv_Cons)
  show ?thesis
    using resolves_multi [OF c _ k, of 4] by (simp add: u)
qed

lemma Config_resolves_three:
  assumes "ModelName A = m" "ModelName B = m" "ModelName C = m"
  shows "fst (Config_resolves \<lparr>ModelList = [A, B, C], rrCounters = None, \<dots> = x\<rparr> m (Suc (Suc (Suc (Suc 0)))))
     = [Inr B, Inr C, Inr A, Inr B]"
  using assms
  by (simp add: Config_GetModelConfig_def Let_def)

lemma inv_new: "reachable_inv (NewModelRegistry modelList)"
  by (simp add: reachable_inv_def NewModelRegistry_def init_counters_def slice_at_def Let_def
      split: option.splits)

lemma inv_add: "reachable_inv r \<Longrightarrow> reachable_inv (AddConfig r cfg)"
  unfolding reachable_inv_def AddConfig_def Let_def
  by (auto simp: slice_at_def split: option.splits if_splits)

lemma inv_remove: "reachable_inv r \<Longrightarrow> reachable_inv (RemoveConfig r n)"
  by (simp add: reachable_inv_def RemoveConfig_def slice_at_def)

lemma configs_get: "configs (snd (GetModelConfig r n)) = configs r"
  by (simp add: GetModelConfig_def Let_def split: option.splits)

lemma counters_get:
  "counters (snd (GetModelConfig r n)) m = None \<longleftrightarrow> counters r m = None"
  by (simp add: GetModelConfig_def Let_def split: option.splits)

lemma inv_get: "reachable_inv r \<Longrightarrow> reachable_inv (snd (GetModelConfig r n))"
  by (simp add: reachable_inv_def configs_get counters_get)

lemma reachable_invariant: "reachable r \<Longrightarrow> reachable_inv r"
  by (induction rule: reachable.induct) (simp_all add: inv_new inv_add inv_remove inv_get)

lemma GetModelConfig_index:
  assumes "configs r n = Some cfgs" "cfgs \<noteq> []"
  shows "\<exists>j<length cfgs. fst (GetModelConfig r n) = Inr (cfgs ! j)"
proof (cases "length cfgs = 1")
  case True
  then show ?thesis
    using assms by (simp add: GetModelConfig_def)
next
  case False
  with assms(2) have big: "1 < length cfgs"
    by (cases cfgs) auto
  show ?thesis
  proof (cases "counters r n")
    case None
    then show ?thesis
      using assms big by (auto simp: GetModelConfig_def)
  next
    case (Some c)
    have "unat (c + 1) mod length cfgs < length cfgs"
      by (rule mod_less_divisor) (use big in arith)
    moreover have "fst (GetModelConfig r n) = Inr (cfgs ! (unat (c + 1) mod length cfgs))"
      using GetModelConfig_multi [OF assms(1) big Some] by simp
    ultimately show ?thesis by blast
  qed
qed

lemma Config_GetModelConfig_index:
  assumes "collect_matches (ModelList c) n [] = ms" "ms \<noteq> []"
  shows "\<exists>j<length ms. fst (Config_GetModelConfig c n) = Inr (ms ! j)"
proof (cases "length ms = 1")
  case True
  then show ?thesis
    using assms by (simp add: Config_GetModelConfig_def)
next
  case False
  with assms(2) have big: "1 < length ms"
    by (cases ms) auto
  define w :: "64 word" where
    "w = (case (case rrCounters c of None \<Rightarrow> Map.empty | Some m \<Rightarrow> m) n of None \<Rightarrow> 0 | Some v \<Rightarrow> v) + 1"
  have "unat w mod length ms < length ms"
    by (rule mod_less_divisor) (use big in arith)
  moreover have "fst (Config_GetModelConfig c n) = Inr (ms ! (unat w mod length ms))"
    using assms big by (simp add: Config_GetModelConfig_def Let_def w_def)
  ultimately show ?thesis by blast
qed

lemma unat_add_of_nat_no_wrap:
  fixes c :: "64 word"
  assumes "unat c + k < 2 ^ 64"
  shows "unat (c + of_nat k) = unat c + k"
proof -
  have k: "k < 2 ^ 64" using assms by arith
  have "unat (of_nat k :: 64 word) = k"
    using k by (simp add: unat_of_nat)
  moreover have "unat (c + of_nat k) = (unat c + unat (of_nat k :: 64 word)) mod 2 ^ 64"
    by (simp add: unat_word_ariths)
  ultimately show ?thesis
    using assms by simp
qed

lemma mset_rotate1_eq: "mset (rotate1 xs) = mset xs"
  by (cases xs) simp_all

lemma mset_rotate_eq: "mset (rotate k xs) = mset xs"
  by (induction k) (simp_all add: mset_rotate1_eq)

lemma wrapping_indices:
  "unat ((18446744073709551614::64 word) + of_nat (Suc 0)) mod 3 = 0"
  "unat ((18446744073709551614::64 word) + of_nat (Suc (Suc 0))) mod 3 = 0"
  "unat ((18446744073709551614::64 word) + of_nat (Suc (Suc (Suc 0)))) mod 3 = 1"
  by simp_all

lemma wrapping_results: "fst (resolves wrapping_registry ''m'' 3)
   = [Inr (example_endpoint ''m'' ''A''), Inr (example_endpoint ''m'' ''A''), Inr (example_endpoint ''m'' ''B'')]"
proof -
  let ?cfgs = "[example_endpoint ''m'' ''A'', example_endpoint ''m'' ''B'', example_endpoint ''m'' ''C'']"
  have u: "[0..<3] = [0, Suc 0, Suc (Suc 0)]"
    by (simp add: upt_conv_Cons)
  have c: "configs wrapping_registry ''m'' = Some ?cfgs"
    and k: "counters wrapping_registry ''m'' = Some 18446744073709551614"
    by (simp_all add: wrapping_registry_def)
  have l: "length ?cfgs = 3" "1 < length ?cfgs"
    by simp_all
  have "fst (resolves wrapping_registry ''m'' 3)
      = map (\<lambda>i. Inr (?cfgs ! (unat (18446744073709551614 + of_nat (Suc i) :: 64 word) mod 3))) [0..<3]"
    using resolves_multi [OF c l(2) k, of 3] by (simp only: l(1) fst_conv)
  also have "\<dots> = [Inr (?cfgs ! 0), Inr (?cfgs ! 0), Inr (?cfgs ! 1)]"
    unfolding u by (simp only: list.map wrapping_indices)
  finally show ?thesis by simp
qed

lemma ParseProtocol_from_none:
  assumes "CHR ''/'' \<notin> set q"
  shows "ParseProtocol_from (p @ q) (length p) = (''openai'', p @ q)"
  using assms
proof (induction q arbitrary: p)
  case Nil
  show ?case by (subst ParseProtocol_from.simps) simp
next
  case (Cons x q)
  have "ParseProtocol_from ((p @ [x]) @ q) (length (p @ [x])) = (''openai'', (p @ [x]) @ q)"
    by (rule Cons.IH) (use Cons.prems in simp)
  then show ?case
    using Cons.prems by (subst ParseProtocol_from.simps) (auto simp add: nth_append)
qed

lemma ParseProtocol_from_slash:
  assumes "CHR ''/'' \<notin> set q"
  shows "ParseProtocol_from (p @ q @ CHR ''/'' # rest) (length p) = (p @ q, rest)"
  using assms
proof (induction q arbitrary: p)
  case Nil
  show ?case by (subst ParseProtocol_from.simps) (simp add: nth_append)
next
  case (Cons x q)
  have "ParseProtocol_from ((p @ [x]) @ q @ CHR ''/'' # rest) (length (p @ [x])) = ((p @ [x]) @ q, rest)"
    by (rule Cons.IH) (use Cons.prems in simp)
  then show ?case
    using Cons.prems by (subst ParseProtocol_from.simps) (auto simp add: nth_append)
qed

lemma NewModelRegistry_three:
  assumes "ModelName A = m" "ModelName B = m" "ModelName C = m"
  shows "NewModelRegistry [A, B, C] = \<lparr>configs = [m \<mapsto> [A, B, C]], counters = [m \<mapsto> 0]\<rparr>"
  using assms by (auto simp: NewModelRegistry_def Let_def init_counters_def slice_at_def fun_eq_iff)

lemma reachable_counter:
  assumes "ModelName A = m" "ModelName B = m" "ModelName C = m"
  shows "reachable \<lparr>configs = [m \<mapsto> [A, B, C]], counters = [m \<mapsto> of_nat k]\<rparr>"
proof (induction k)
  case 0
  have "reachable (NewModelRegistry [A, B, C])"
    by (rule reach_new)
  moreover have "(of_nat 0 :: 64 word) = 0"
    by simp
  ultimately show ?case
    by (simp only: NewModelRegistry_three [OF assms])
next
  case (Suc k)
  let ?r = "\<lparr>configs = [m \<mapsto> [A, B, C]], counters = [m \<mapsto> of_nat k]\<rparr>"
  have eq: "snd (GetModelConfig ?r m) = \<lparr>configs = [m \<mapsto> [A, B, C]], counters = [m \<mapsto> of_nat (Suc k)]\<rparr>"
    by (simp add: GetModelConfig_def Let_def add.commute)
  from reach_get [OF Suc, of m] show ?case
    by (simp only: eq)
qed

lemma wrapping_reachable: "reachable wrapping_registry"
proof -
  have "(of_nat 18446744073709551614 :: 64 word) = 18446744073709551614"
    by simp
  then show ?thesis
    using reachable_counter [of "example_endpoint ''m'' ''A''" "''m''" "example_endpoint ''m'' ''B''"
        "example_endpoint ''m'' ''C''" 18446744073709551614]
    by (simp add: wrapping_registry_def example_endpoint_def)
qed

lemma example_state_resolve: "GetModelConfig (registry example_state) ''p'' = (Inr (example_endpoint ''p'' ''k1''), registry example_state)"
  by (simp add: example_state_def NewModelRegistry_def GetModelConfig_def slice_at_def example_endpoint_def Let_def)

section \<open>Round-robin selection\<close>

text \<open>
  C1, as amended.  On a registry freshly built from three records \<open>A\<close>, \<open>B\<close>, \<open>C\<close> of one
  name, four lookups in a row return \<open>B\<close>, \<open>C\<close>, \<open>A\<close> and \<open>B\<close> again: the counter is
  incremented before it is used, so the cycle starts at the second record.  The lookup on
  the configuration object behaves the same way.
\<close>

theorem round_robin_three_records:
  assumes "ModelName A = m" "ModelName B = m" "ModelName C = m"
  shows "fst (resolves (NewModelRegistry [A, B, C]) m 4) = [Inr B, Inr C, Inr A, Inr B]
       \<and> fst (Config_resolves \<lparr>ModelList = [A, B, C], rrCounters = None\<rparr> m 4)
           = [Inr B, Inr C, Inr A, Inr B]"
proof -
  have "fst (Config_resolves \<lparr>ModelList = [A, B, C], rrCounters = None\<rparr> m 4)
      = [Inr B, Inr C, Inr A, Inr B]"
    unfolding four_eq using assms by (rule Config_resolves_three)
  with resolves_three [OF assms] show ?thesis by simp
qed

theorem round_robin_three_records_witness:
  "ModelName (example_endpoint ''m'' ''A'') = ''m''
   \<and> ModelName (example_endpoint ''m'' ''B'') = ''m''
   \<and> ModelName (example_endpoint ''m'' ''C'') = ''m''
   \<and> fst (resolves (NewModelRegistry [example_endpoint ''m'' ''A'', example_endpoint ''m'' ''B'',
                                       example_endpoint ''m'' ''C'']) ''m'' 4)
       = [Inr (example_endpoint ''m'' ''B''), Inr (example_endpoint ''m'' ''C''),
          Inr (example_endpoint ''m'' ''A''), Inr (example_endpoint ''m'' ''B'')]"
proof -
  have n: "ModelName (example_endpoint ''m'' ''A'') = ''m''"
    "ModelName (example_endpoint ''m'' ''B'') = ''m''"
    "ModelName (example_endpoint ''m'' ''C'') = ''m''"
    by (simp_all add: example_endpoint_def)
  from round_robin_three_records [OF n] n show ?thesis by simp
qed

text \<open>
  The claim as stated, "A, then B, then C, and a fourth call returns A again", fails on both
  lookups: the first record returned is \<open>B\<close>.
\<close>

theorem first_resolve_is_not_first_record:
  "fst (resolves (NewModelRegistry [example_endpoint ''m'' ''A'', example_endpoint ''m'' ''B'',
                                     example_endpoint ''m'' ''C'']) ''m'' 4)
     \<noteq> [Inr (example_endpoint ''m'' ''A''), Inr (example_endpoint ''m'' ''B''),
         Inr (example_endpoint ''m'' ''C''), Inr (example_endpoint ''m'' ''A'')]
   \<and> fst (Config_resolves \<lparr>ModelList = [example_endpoint ''m'' ''A'', example_endpoint ''m'' ''B'',
                                          example_endpoint ''m'' ''C''], rrCounters = None\<rparr> ''m'' 4)
     \<noteq> [Inr (example_endpoint ''m'' ''A''), Inr (example_endpoint ''m'' ''B''),
         Inr (example_endpoint ''m'' ''C''), Inr (example_endpoint ''m'' ''A'')]"
proof -
  have n: "ModelName (example_endpoint ''m'' ''A'') = ''m''"
    "ModelName (example_endpoint ''m'' ''B'') = ''m''"
    "ModelName (example_endpoint ''m'' ''C'') = ''m''"
    by (simp_all add: example_endpoint_def)
  have d: "example_endpoint ''m'' ''B'' \<noteq> example_endpoint ''m'' ''A''"
    by (simp add: example_endpoint_def)
  have "fst (Config_resolves \<lparr>ModelList = [example_endpoint ''m'' ''A'', example_endpoint ''m'' ''B'',
                                          example_endpoint ''m'' ''C''], rrCounters = None\<rparr> ''m'' 4)
      = [Inr (example_endpoint ''m'' ''B''), Inr (example_endpoint ''m'' ''C''),
         Inr (example_endpoint ''m'' ''A''), Inr (example_endpoint ''m'' ''B'')]"
    unfolding four_eq using n by (rule Config_resolves_three)
  with resolves_three [OF n] d show ?thesis by simp
qed

text \<open>
  C4, as amended.  For a name with \<open>N > 1\<close> records and a counter \<open>c\<close> that does not wrap
  around during the next \<open>N\<close> lookups (\<open>c + N < 2 ^ 64\<close>), \<open>N\<close> lookups in a row on an
  otherwise idle registry return every record exactly once: the results are the group
  rotated by \<open>c + 1\<close> positions.  Every reachable registry holds a counter for such a name
  (see \<open>counter_exists_invariant\<close> below).
\<close>

theorem round_robin_fairness:
  assumes "configs r n = Some cfgs" and "1 < length cfgs"
    and "counters r n = Some c" and "unat c + length cfgs < 2 ^ 64"
  shows "mset (fst (resolves r n (length cfgs))) = mset (map Inr cfgs)
       \<and> fst (resolves r n (length cfgs)) = map Inr (rotate (Suc (unat c)) cfgs)"
proof -
  let ?N = "length cfgs"
  have idx: "cfgs ! (unat (c + of_nat (Suc i)) mod ?N) = rotate (Suc (unat c)) cfgs ! i"
    if "i < ?N" for i
  proof -
    have "unat c + Suc i < 2 ^ 64"
      using that assms(4) by arith
    then have "unat (c + of_nat (Suc i)) = unat c + Suc i"
      by (rule unat_add_of_nat_no_wrap)
    moreover have "rotate (Suc (unat c)) cfgs ! i = cfgs ! ((Suc (unat c) + i) mod ?N)"
      using that by (rule nth_rotate)
    ultimately show ?thesis
      by (simp only: add_Suc add_Suc_right add.commute)
  qed
  have "fst (resolves r n ?N) = map (\<lambda>i. Inr (cfgs ! (unat (c + of_nat (Suc i)) mod ?N))) [0..<?N]"
    using resolves_multi [OF assms(1,2,3), of ?N] by simp
  also have "\<dots> = map (\<lambda>i. Inr (rotate (Suc (unat c)) cfgs ! i)) [0..<?N]"
    using idx by simp
  also have "\<dots> = map Inr (map (\<lambda>i. rotate (Suc (unat c)) cfgs ! i) [0..<length (rotate (Suc (unat c)) cfgs)])"
    by simp
  also have "\<dots> = map Inr (rotate (Suc (unat c)) cfgs)"
    by (simp only: map_nth)
  finally have r: "fst (resolves r n ?N) = map Inr (rotate (Suc (unat c)) cfgs)" .
  have "mset (fst (resolves r n ?N)) = mset (map Inr cfgs)"
    unfolding r by (simp only: mset_map mset_rotate_eq)
  with r show ?thesis by simp
qed

theorem round_robin_fairness_witness:
  "configs (NewModelRegistry [example_endpoint ''m'' ''A'', example_endpoint ''m'' ''B'',
                              example_endpoint ''m'' ''C'']) ''m''
     = Some [example_endpoint ''m'' ''A'', example_endpoint ''m'' ''B'', example_endpoint ''m'' ''C'']
   \<and> counters (NewModelRegistry [example_endpoint ''m'' ''A'', example_endpoint ''m'' ''B'',
                                 example_endpoint ''m'' ''C'']) ''m'' = Some 0
   \<and> unat (0 :: 64 word) + 3 < (2 :: nat) ^ 64
   \<and> mset (fst (resolves (NewModelRegistry [example_endpoint ''m'' ''A'', example_endpoint ''m'' ''B'',
                                             example_endpoint ''m'' ''C'']) ''m'' 3))
     = mset [Inr (example_endpoint ''m'' ''A''), Inr (example_endpoint ''m'' ''B''),
             Inr (example_endpoint ''m'' ''C'')]"
proof -
  let ?cfgs = "[example_endpoint ''m'' ''A'', example_endpoint ''m'' ''B'', example_endpoint ''m'' ''C'']"
  let ?r = "NewModelRegistry ?cfgs"
  have c: "configs ?r ''m'' = Some ?cfgs" and k: "counters ?r ''m'' = Some 0"
    by (simp_all add: NewModelRegistry_def Let_def init_counters_def slice_at_def example_endpoint_def)
  have l: "1 < length ?cfgs"
    by simp
  have w: "unat (0 :: 64 word) + length ?cfgs < 2 ^ 64"
    by simp
  have l3: "length ?cfgs = 3"
    by simp
  have "mset (fst (resolves ?r ''m'' (length ?cfgs))) = mset (map Inr ?cfgs)"
    using round_robin_fairness [OF c l k w] by (rule conjunct1)
  then have "mset (fst (resolves ?r ''m'' 3)) = mset (map Inr ?cfgs)"
    unfolding l3 .
  then have m: "mset (fst (resolves ?r ''m'' 3))
      = mset [Inr (example_endpoint ''m'' ''A''), Inr (example_endpoint ''m'' ''B''),
              Inr (example_endpoint ''m'' ''C'')]"
    by (simp only: list.map)
  have u: "unat (0 :: 64 word) + 3 < (2 :: nat) ^ 64"
    by simp
  from c k u m show ?thesis
    by (intro conjI)
qed

text \<open>
  The claim as stated, for any \<open>N\<close> consecutive lookups, fails where the 64-bit counter
  wraps around: \<open>2 ^ 64\<close> is not a multiple of 3, so on the reachable registry whose counter
  holds \<open>2 ^ 64 - 2\<close> the next three lookups return the first record twice and the third
  record not at all.
\<close>

theorem wrapping_counter_breaks_fairness:
  "reachable wrapping_registry
   \<and> configs wrapping_registry ''m''
       = Some [example_endpoint ''m'' ''A'', example_endpoint ''m'' ''B'', example_endpoint ''m'' ''C'']
   \<and> fst (resolves wrapping_registry ''m'' 3)
       = [Inr (example_endpoint ''m'' ''A''), Inr (example_endpoint ''m'' ''A''),
          Inr (example_endpoint ''m'' ''B'')]
   \<and> mset (fst (resolves wrapping_registry ''m'' 3))
       \<noteq> mset (map Inr [example_endpoint ''m'' ''A'', example_endpoint ''m'' ''B'',
                         example_endpoint ''m'' ''C''])"
proof -
  have c: "configs wrapping_registry ''m''
       = Some [example_endpoint ''m'' ''A'', example_endpoint ''m'' ''B'', example_endpoint ''m'' ''C'']"
    by (simp add: wrapping_registry_def)
  have "mset (fst (resolves wrapping_registry ''m'' 3))
       \<noteq> mset (map Inr [example_endpoint ''m'' ''A'', example_endpoint ''m'' ''B'',
                         example_endpoint ''m'' ''C''])"
  proof
    assume "mset (fst (resolves wrapping_registry ''m'' 3))
       = mset (map Inr [example_endpoint ''m'' ''A'', example_endpoint ''m'' ''B'',
                         example_endpoint ''m'' ''C''])"
    then have "set (fst (resolves wrapping_registry ''m'' 3))
       = set (map Inr [example_endpoint ''m'' ''A'', example_endpoint ''m'' ''B'',
                       example_endpoint ''m'' ''C''])"
      by (rule mset_eq_setD)
    then have "Inr (example_endpoint ''m'' ''C'') \<in> set (fst (resolves wrapping_registry ''m'' 3))"
      by simp
    then show False
      unfolding wrapping_results by (simp add: example_endpoint_def)
  qed
  with wrapping_reachable c wrapping_results show ?thesis by blast
qed

text \<open>
  C5.  When the group of a name holds exactly one record, any number \<open>k\<close> of lookups
  returns that record every time and leaves the whole registry as it was: no counter is
  created or incremented and nothing else changes.  The same holds for the lookup on the
  configuration object when exactly one entry of the model list carries the name.
\<close>

theorem single_record_shortcut:
  "(configs r n = Some [cfg] \<longrightarrow> resolves r n k = (replicate k (Inr cfg), r))
   \<and> (filter (\<lambda>x. ModelName x = n) (ModelList c) = [cfg]
        \<longrightarrow> Config_resolves c n k = (replicate k (Inr cfg), c))"
proof (intro conjI impI)
  assume a: "configs r n = Some [cfg]"
  show "resolves r n k = (replicate k (Inr cfg), r)"
  proof (induction k)
    case 0
    show ?case by simp
  next
    case (Suc k)
    have "GetModelConfig r n = (Inr cfg, r)"
      using a by (simp add: GetModelConfig_def)
    with Suc show ?case by simp
  qed
next
  assume a: "filter (\<lambda>x. ModelName x = n) (ModelList c) = [cfg]"
  show "Config_resolves c n k = (replicate k (Inr cfg), c)"
  proof (induction k)
    case 0
    show ?case by simp
  next
    case (Suc k)
    have "Config_GetModelConfig c n = (Inr cfg, c)"
      using a by (simp add: Config_GetModelConfig_def collect_matches_filter)
    with Suc show ?case by simp
  qed
qed

theorem single_record_shortcut_witness:
  "configs (NewModelRegistry [example_endpoint ''p'' ''k1'']) ''p'' = Some [example_endpoint ''p'' ''k1'']
   \<and> resolves (NewModelRegistry [example_endpoint ''p'' ''k1'']) ''p'' 5
       = (replicate 5 (Inr (example_endpoint ''p'' ''k1'')), NewModelRegistry [example_endpoint ''p'' ''k1''])
   \<and> filter (\<lambda>x. ModelName x = ''p'')
        (ModelList \<lparr>ModelList = [example_endpoint ''p'' ''k1'', example_endpoint ''q'' ''k2''],
                    rrCounters = None\<rparr>) = [example_endpoint ''p'' ''k1'']
   \<and> Config_resolves \<lparr>ModelList = [example_endpoint ''p'' ''k1'', example_endpoint ''q'' ''k2''],
                       rrCounters = None\<rparr> ''p'' 5
       = (replicate 5 (Inr (example_endpoint ''p'' ''k1'')),
          \<lparr>ModelList = [example_endpoint ''p'' ''k1'', example_endpoint ''q'' ''k2''], rrCounters = None\<rparr>)"
proof -
  let ?r = "NewModelRegistry [example_endpoint ''p'' ''k1'']"
  let ?c = "\<lparr>ModelList = [example_endpoint ''p'' ''k1'', example_endpoint ''q'' ''k2''], rrCounters = None\<rparr>"
  have a: "configs ?r ''p'' = Some [example_endpoint ''p'' ''k1'']"
    by (simp add: NewModelRegistry_def Let_def slice_at_def example_endpoint_def)
  have b: "filter (\<lambda>x. ModelName x = ''p'') (ModelList ?c) = [example_endpoint ''p'' ''k1'']"
    by (simp add: example_endpoint_def)
  from single_record_shortcut [of ?r "''p''" "example_endpoint ''p'' ''k1''" 5 ?c] a b
  show ?thesis by blast
qed

section \<open>Lookup failure\<close>

text \<open>
  C6.  \<^verbatim>\<open>GetModelConfig\<close> returns an error if and only if the name has no group or its
  group is empty; whenever at least one record is registered under the name, it returns
  one of the records of that name and no error.  The lookup on the configuration object
  fails if and only if no entry of the model list carries the name, and otherwise returns
  an entry of the list that carries it.
\<close>

theorem resolve_error_iff_no_record:
  "((\<exists>e. fst (GetModelConfig r n) = Inl e) \<longleftrightarrow> (configs r n = None \<or> configs r n = Some []))
   \<and> (slice_at (configs r) n \<noteq> []
        \<longrightarrow> (\<exists>cfg \<in> set (slice_at (configs r) n). fst (GetModelConfig r n) = Inr cfg))
   \<and> ((\<exists>e. fst (Config_GetModelConfig c n) = Inl e)
        \<longleftrightarrow> filter (\<lambda>x. ModelName x = n) (ModelList c) = [])
   \<and> (filter (\<lambda>x. ModelName x = n) (ModelList c) \<noteq> []
        \<longrightarrow> (\<exists>cfg \<in> set (ModelList c). ModelName cfg = n \<and> fst (Config_GetModelConfig c n) = Inr cfg))"
proof (intro conjI impI)
  show "(\<exists>e. fst (GetModelConfig r n) = Inl e) \<longleftrightarrow> (configs r n = None \<or> configs r n = Some [])"
    by (auto simp: GetModelConfig_def Let_def split: option.splits)
next
  assume "slice_at (configs r) n \<noteq> []"
  then obtain cfgs where c: "configs r n = Some cfgs" and ne: "cfgs \<noteq> []"
    by (auto simp: slice_at_def split: option.splits)
  from GetModelConfig_index [OF c ne] obtain j
    where "j < length cfgs" "fst (GetModelConfig r n) = Inr (cfgs ! j)" by blast
  then show "\<exists>cfg \<in> set (slice_at (configs r) n). fst (GetModelConfig r n) = Inr cfg"
    using c by (auto simp: slice_at_def)
next
  show "(\<exists>e. fst (Config_GetModelConfig c n) = Inl e)
      \<longleftrightarrow> filter (\<lambda>x. ModelName x = n) (ModelList c) = []"
    by (auto simp: Config_GetModelConfig_def Let_def collect_matches_filter)
next
  let ?ms = "filter (\<lambda>x. ModelName x = n) (ModelList c)"
  assume ne: "?ms \<noteq> []"
  have e: "collect_matches (ModelList c) n [] = ?ms"
    by (simp add: collect_matches_filter)
  from Config_GetModelConfig_index [OF e ne] obtain j
    where j: "j < length ?ms" and f: "fst (Config_GetModelConfig c n) = Inr (?ms ! j)"
    by blast
  from nth_mem [OF j] have "?ms ! j \<in> set (ModelList c) \<and> ModelName (?ms ! j) = n"
    by simp
  with f show "\<exists>cfg \<in> set (ModelList c). ModelName cfg = n \<and> fst (Config_GetModelConfig c n) = Inr cfg"
    by blast
qed

theorem resolve_error_iff_no_record_witness:
  "slice_at (configs (NewModelRegistry [example_endpoint ''p'' ''k1''])) ''p'' \<noteq> []
   \<and> fst (GetModelConfig (NewModelRegistry [example_endpoint ''p'' ''k1'']) ''p'')
       = Inr (example_endpoint ''p'' ''k1'')
   \<and> configs (NewModelRegistry [example_endpoint ''p'' ''k1'']) ''q'' = None
   \<and> fst (GetModelConfig (NewModelRegistry [example_endpoint ''p'' ''k1'']) ''q'') = Inl (NotFound ''q'')
   \<and> filter (\<lambda>x. ModelName x = ''p'')
        (ModelList \<lparr>ModelList = [example_endpoint ''p'' ''k1''], rrCounters = None\<rparr>) \<noteq> []
   \<and> fst (Config_GetModelConfig \<lparr>ModelList = [example_endpoint ''p'' ''k1''], rrCounters = None\<rparr> ''p'')
       = Inr (example_endpoint ''p'' ''k1'')"
proof -
  let ?r = "NewModelRegistry [example_endpoint ''p'' ''k1'']"
  let ?c = "\<lparr>ModelList = [example_endpoint ''p'' ''k1''], rrCounters = None\<rparr>"
  have s: "slice_at (configs ?r) ''p'' = [example_endpoint ''p'' ''k1'']"
    and q: "configs ?r ''q'' = None"
    by (simp_all add: NewModelRegistry_def Let_def slice_at_def example_endpoint_def)
  have m: "ModelList ?c = [example_endpoint ''p'' ''k1'']"
    by simp
  have f: "filter (\<lambda>x. ModelName x = ''p'') (ModelList ?c) = [example_endpoint ''p'' ''k1'']"
    by (simp add: example_endpoint_def)
  note tq = resolve_error_iff_no_record [of ?r "''q''" ?c]
  note tp = resolve_error_iff_no_record [of ?r "''p''" ?c]
  have "(\<exists>e. fst (GetModelConfig ?r ''q'') = Inl e) \<longleftrightarrow> (configs ?r ''q'' = None \<or> configs ?r ''q'' = Some [])"
    using tq by (elim conjE)
  then have "\<exists>e. fst (GetModelConfig ?r ''q'') = Inl e"
    using q by (simp only: simp_thms)
  then obtain e where e0: "fst (GetModelConfig ?r ''q'') = Inl e"
    by (elim exE)
  have "e = NotFound ''q''"
    using e0 q by (simp add: GetModelConfig_def)
  with e0 have e: "fst (GetModelConfig ?r ''q'') = Inl (NotFound ''q'')"
    by (simp only:)
  have sne: "slice_at (configs ?r) ''p'' \<noteq> []"
    unfolding s by simp
  have "slice_at (configs ?r) ''p'' \<noteq> []
      \<longrightarrow> (\<exists>cfg \<in> set (slice_at (configs ?r) ''p''). fst (GetModelConfig ?r ''p'') = Inr cfg)"
    using tp by (elim conjE)
  with sne have "\<exists>cfg \<in> set (slice_at (configs ?r) ''p''). fst (GetModelConfig ?r ''p'') = Inr cfg"
    by (rule rev_mp)
  then have a: "fst (GetModelConfig ?r ''p'') = Inr (example_endpoint ''p'' ''k1'')"
    unfolding s by simp
  have fne: "filter (\<lambda>x. ModelName x = ''p'') (ModelList ?c) \<noteq> []"
    unfolding f by simp
  have "filter (\<lambda>x. ModelName x = ''p'') (ModelList ?c) \<noteq> []
      \<longrightarrow> (\<exists>cfg \<in> set (ModelList ?c). ModelName cfg = ''p'' \<and> fst (Config_GetModelConfig ?c ''p'') = Inr cfg)"
    using tp by (elim conjE)
  with fne have "\<exists>cfg \<in> set (ModelList ?c). ModelName cfg = ''p'' \<and> fst (Config_GetModelConfig ?c ''p'') = Inr cfg"
    by (rule rev_mp)
  then have b: "fst (Config_GetModelConfig ?c ''p'') = Inr (example_endpoint ''p'' ''k1'')"
    unfolding m by simp
  from sne a q e fne b show ?thesis
    by (intro conjI)
qed

section \<open>Registering and unregistering\<close>

text \<open>
  C7.  \<^verbatim>\<open>AddConfig\<close> appends the record at the end of the group named by its
  \<^verbatim>\<open>ModelName\<close>, creating the group when it is absent and checking nothing about the
  records already there (so a duplicate is appended like any other record); the count of
  that name grows by one and the groups and counts of all other names are unchanged.
  \<^verbatim>\<open>ConfigCount\<close> is the number of records registered under a name, 0 for an absent name.
\<close>

theorem register_appends:
  "configs (AddConfig r cfg) (ModelName cfg) = Some (slice_at (configs r) (ModelName cfg) @ [cfg])
   \<and> ConfigCount (AddConfig r cfg) (ModelName cfg) = ConfigCount r (ModelName cfg) + 1
   \<and> (\<forall>n. n \<noteq> ModelName cfg \<longrightarrow>
         configs (AddConfig r cfg) n = configs r n \<and> ConfigCount (AddConfig r cfg) n = ConfigCount r n)
   \<and> (\<forall>n. configs r n = None \<longrightarrow> ConfigCount r n = 0)
   \<and> (\<forall>n xs. configs r n = Some xs \<longrightarrow> ConfigCount r n = length xs)"
  by (simp add: AddConfig_def ConfigCount_def slice_at_def Let_def)

theorem register_appends_witness:
  "configs (AddConfig (NewModelRegistry [example_endpoint ''p'' ''k1'']) (example_endpoint ''p'' ''k1'')) ''p''
     = Some [example_endpoint ''p'' ''k1'', example_endpoint ''p'' ''k1'']
   \<and> ConfigCount (AddConfig (NewModelRegistry [example_endpoint ''p'' ''k1'']) (example_endpoint ''p'' ''k1'')) ''p'' = 2
   \<and> ''q'' \<noteq> ModelName (example_endpoint ''p'' ''k1'')
   \<and> configs (NewModelRegistry [example_endpoint ''p'' ''k1'']) ''q'' = None
   \<and> ConfigCount (AddConfig (NewModelRegistry [example_endpoint ''p'' ''k1'']) (example_endpoint ''p'' ''k1'')) ''q'' = 0"
proof -
  let ?A = "example_endpoint ''p'' ''k1''"
  let ?r = "NewModelRegistry [?A]"
  have n: "ModelName ?A = ''p''" and d: "''q'' \<noteq> ModelName ?A"
    by (simp_all add: example_endpoint_def)
  have s: "slice_at (configs ?r) ''p'' = [?A]" and q: "configs ?r ''q'' = None"
    and k: "ConfigCount ?r ''p'' = 1"
    by (simp_all add: NewModelRegistry_def Let_def slice_at_def ConfigCount_def example_endpoint_def)
  note t = register_appends [of ?r ?A]
  have a: "configs (AddConfig ?r ?A) ''p'' = Some [?A, ?A]"
    using t n s by simp
  have b: "ConfigCount (AddConfig ?r ?A) ''p'' = 2"
    using t n k by simp
  have "ConfigCount ?r ''q'' = 0"
    using t q by blast
  moreover have "ConfigCount (AddConfig ?r ?A) ''q'' = ConfigCount ?r ''q''"
    using t d by blast
  ultimately show ?thesis
    using a b d q by simp
qed

text \<open>
  C8.  \<^verbatim>\<open>RemoveConfig\<close> removes the whole group of the name together with its counter and
  touches no other name.  Afterwards the name is absent: its count is 0 and a lookup
  fails.  Removing again changes nothing, and on a reachable registry removing a name
  that has no group leaves the registry exactly as it was.
\<close>

theorem unregister_idempotent:
  "configs (RemoveConfig r n) n = None \<and> counters (RemoveConfig r n) n = None
   \<and> ConfigCount (RemoveConfig r n) n = 0
   \<and> GetModelConfig (RemoveConfig r n) n = (Inl (NotFound n), RemoveConfig r n)
   \<and> RemoveConfig (RemoveConfig r n) n = RemoveConfig r n
   \<and> (\<forall>m. m \<noteq> n \<longrightarrow>
         configs (RemoveConfig r n) m = configs r m \<and> counters (RemoveConfig r n) m = counters r m)
   \<and> (reachable r \<and> configs r n = None \<longrightarrow> RemoveConfig r n = r)"
proof -
  have a1: "configs (RemoveConfig r n) n = None"
    and a2: "counters (RemoveConfig r n) n = None"
    and a3: "ConfigCount (RemoveConfig r n) n = 0"
    by (simp_all add: RemoveConfig_def ConfigCount_def slice_at_def)
  have a4: "GetModelConfig (RemoveConfig r n) n = (Inl (NotFound n), RemoveConfig r n)"
    using a1 by (simp add: GetModelConfig_def)
  have a5: "RemoveConfig (RemoveConfig r n) n = RemoveConfig r n"
    by (simp add: RemoveConfig_def)
  have a6: "\<forall>m. m \<noteq> n \<longrightarrow>
         configs (RemoveConfig r n) m = configs r m \<and> counters (RemoveConfig r n) m = counters r m"
    by (simp add: RemoveConfig_def)
  have b: "reachable r \<and> configs r n = None \<longrightarrow> RemoveConfig r n = r"
  proof
    assume h: "reachable r \<and> configs r n = None"
    then have "reachable_inv r"
      by (intro reachable_invariant) simp
    then have "counters r n \<noteq> None \<longleftrightarrow> 1 < length (slice_at (configs r) n)"
      unfolding reachable_inv_def by (rule spec)
    then have "counters r n = None"
      using h by (simp add: slice_at_def)
    then have "(counters r)(n := None) = counters r" "(configs r)(n := None) = configs r"
      using h by (simp_all add: fun_upd_idem_iff)
    then show "RemoveConfig r n = r"
      by (simp add: RemoveConfig_def)
  qed
  from a1 a2 a3 a4 a5 a6 b show ?thesis
    by (intro conjI)
qed

theorem unregister_idempotent_witness:
  "ConfigCount (RemoveConfig (NewModelRegistry [example_endpoint ''p'' ''k1'', example_endpoint ''p'' ''k2'']) ''p'') ''p'' = 0
   \<and> counters (RemoveConfig (NewModelRegistry [example_endpoint ''p'' ''k1'', example_endpoint ''p'' ''k2'']) ''p'') ''p'' = None
   \<and> ''q'' \<noteq> ''p''
   \<and> reachable (NewModelRegistry [example_endpoint ''p'' ''k1'', example_endpoint ''p'' ''k2''])
   \<and> configs (NewModelRegistry [example_endpoint ''p'' ''k1'', example_endpoint ''p'' ''k2'']) ''q'' = None
   \<and> RemoveConfig (NewModelRegistry [example_endpoint ''p'' ''k1'', example_endpoint ''p'' ''k2'']) ''q''
       = NewModelRegistry [example_endpoint ''p'' ''k1'', example_endpoint ''p'' ''k2'']
   \<and> configs (RemoveConfig (NewModelRegistry [example_endpoint ''p'' ''k1'', example_endpoint ''p'' ''k2'']) ''p'') ''q''
       = None"
proof -
  let ?r = "NewModelRegistry [example_endpoint ''p'' ''k1'', example_endpoint ''p'' ''k2'']"
  have q: "configs ?r ''q'' = None"
    by (simp add: NewModelRegistry_def Let_def slice_at_def example_endpoint_def)
  have re: "reachable ?r"
    by (rule reach_new)
  have d: "''q'' \<noteq> ''p''"
    by simp
  note t = unregister_idempotent [of ?r "''p''"]
  note tq = unregister_idempotent [of ?r "''q''"]
  have c0: "ConfigCount (RemoveConfig ?r ''p'') ''p'' = 0"
    using t by (elim conjE)
  have k0: "counters (RemoveConfig ?r ''p'') ''p'' = None"
    using t by (elim conjE)
  have "reachable ?r \<and> configs ?r ''q'' = None \<longrightarrow> RemoveConfig ?r ''q'' = ?r"
    using tq by (elim conjE)
  with re q have no: "RemoveConfig ?r ''q'' = ?r"
    by (simp only: simp_thms)
  have "\<forall>m. m \<noteq> ''p'' \<longrightarrow>
         configs (RemoveConfig ?r ''p'') m = configs ?r m \<and> counters (RemoveConfig ?r ''p'') m = counters ?r m"
    using t by (elim conjE)
  then have "configs (RemoveConfig ?r ''p'') ''q'' = configs ?r ''q''"
    using d by (elim allE [of _ "''q''"]) simp
  then have oq: "configs (RemoveConfig ?r ''p'') ''q'' = None"
    using q by (rule trans)
  from c0 k0 d re q no oq show ?thesis
    by (intro conjI)
qed

text \<open>
  C10.  Every registry produced from \<^verbatim>\<open>NewModelRegistry\<close> by \<^verbatim>\<open>AddConfig\<close>,
  \<^verbatim>\<open>RemoveConfig\<close> (and lookups) holds a counter for every name that has more than one
  configuration.  Hence the branch of \<^verbatim>\<open>GetModelConfig\<close> for a missing counter is never
  taken: its path condition is false, and a lookup of such a name takes the round-robin
  branch.
\<close>

theorem counter_exists_invariant:
  assumes "reachable r"
  shows "(\<forall>n. 1 < length (slice_at (configs r) n) \<longrightarrow> counters r n \<noteq> None)
       \<and> (\<forall>n. \<not> missing_counter_branch r n)
       \<and> (\<forall>n cfgs. configs r n = Some cfgs \<and> 1 < length cfgs \<longrightarrow>
            (\<exists>c. counters r n = Some c
               \<and> GetModelConfig r n =
                   (Inr (cfgs ! (unat (c + 1) mod length cfgs)),
                    r\<lparr>counters := (counters r)(n \<mapsto> c + 1)\<rparr>)))"
proof -
  have i: "reachable_inv r"
    using assms by (rule reachable_invariant)
  then have a: "\<forall>n. 1 < length (slice_at (configs r) n) \<longrightarrow> counters r n \<noteq> None"
    by (simp add: reachable_inv_def)
  have b: "\<not> missing_counter_branch r n" for n
  proof (cases "configs r n")
    case None
    then show ?thesis by (simp add: missing_counter_branch_def)
  next
    case (Some cfgs)
    show ?thesis
    proof
      assume "missing_counter_branch r n"
      then have l: "length cfgs \<noteq> 0" "length cfgs \<noteq> 1" and k: "counters r n = None"
        using Some by (simp_all add: missing_counter_branch_def)
      from l have "1 < length cfgs" by arith
      then have "1 < length (slice_at (configs r) n)"
        using Some by (simp add: slice_at_def)
      with a k show False by blast
    qed
  qed
  have c: "\<exists>c. counters r n = Some c
               \<and> GetModelConfig r n =
                   (Inr (cfgs ! (unat (c + 1) mod length cfgs)),
                    r\<lparr>counters := (counters r)(n \<mapsto> c + 1)\<rparr>)"
    if s: "configs r n = Some cfgs" and l: "1 < length cfgs" for n cfgs
  proof -
    have "1 < length (slice_at (configs r) n)"
      using s l by (simp add: slice_at_def)
    with a obtain c where k: "counters r n = Some c"
      by blast
    from GetModelConfig_multi [OF s l k] k show ?thesis
      by blast
  qed
  from a b c show ?thesis by blast
qed

theorem counter_exists_invariant_witness:
  "reachable (AddConfig (NewModelRegistry [example_endpoint ''p'' ''k1'']) (example_endpoint ''p'' ''k2''))
   \<and> ConfigCount (AddConfig (NewModelRegistry [example_endpoint ''p'' ''k1'']) (example_endpoint ''p'' ''k2'')) ''p'' = 2
   \<and> counters (AddConfig (NewModelRegistry [example_endpoint ''p'' ''k1'']) (example_endpoint ''p'' ''k2'')) ''p'' \<noteq> None
   \<and> \<not> missing_counter_branch
         (AddConfig (NewModelRegistry [example_endpoint ''p'' ''k1'']) (example_endpoint ''p'' ''k2'')) ''p''"
proof -
  let ?r = "AddConfig (NewModelRegistry [example_endpoint ''p'' ''k1'']) (example_endpoint ''p'' ''k2'')"
  have re: "reachable ?r"
    by (intro reach_add reach_new)
  have s: "slice_at (configs ?r) ''p'' = [example_endpoint ''p'' ''k1'', example_endpoint ''p'' ''k2'']"
    by (simp add: AddConfig_def NewModelRegistry_def slice_at_def Let_def example_endpoint_def)
  then have k: "ConfigCount ?r ''p'' = 2"
    by (simp add: ConfigCount_def)
  have l: "1 < length (slice_at (configs ?r) ''p'')"
    unfolding s by simp
  note t = counter_exists_invariant [OF re]
  have "counters ?r ''p'' \<noteq> None"
    using t l by blast
  moreover have "\<not> missing_counter_branch ?r ''p''"
    using t by blast
  ultimately show ?thesis
    using re k by blast
qed

section \<open>Protocol prefix of the model field\<close>

text \<open>
  C9.  \<^verbatim>\<open>ParseProtocol\<close> splits the model string at its first \<open>/\<close> into protocol and
  model identifier; a model string without any \<open>/\<close> yields the protocol \<open>openai\<close> and the
  whole string as model identifier.
\<close>

theorem ParseProtocol_splits_at_first_slash:
  "(CHR ''/'' \<notin> set (Model c) \<longrightarrow> ParseProtocol c = (''openai'', Model c))
   \<and> (\<forall>p rest. Model c = p @ CHR ''/'' # rest \<and> CHR ''/'' \<notin> set p \<longrightarrow> ParseProtocol c = (p, rest))"
proof (intro conjI impI allI)
  assume "CHR ''/'' \<notin> set (Model c)"
  then show "ParseProtocol c = (''openai'', Model c)"
    using ParseProtocol_from_none [of "Model c" "[]"] by (simp add: ParseProtocol_def)
next
  fix p rest
  assume "Model c = p @ CHR ''/'' # rest \<and> CHR ''/'' \<notin> set p"
  then show "ParseProtocol c = (p, rest)"
    using ParseProtocol_from_slash [of p "[]" rest] by (simp add: ParseProtocol_def)
qed

theorem ParseProtocol_splits_at_first_slash_witness:
  "Model (example_endpoint ''m'' ''k'') = ''openai'' @ CHR ''/'' # ''gpt-4o''
   \<and> CHR ''/'' \<notin> set ''openai''
   \<and> ParseProtocol (example_endpoint ''m'' ''k'') = (''openai'', ''gpt-4o'')
   \<and> CHR ''/'' \<notin> set (Model ((example_endpoint ''m'' ''k'')\<lparr>Model := ''gpt-4o''\<rparr>))
   \<and> ParseProtocol ((example_endpoint ''m'' ''k'')\<lparr>Model := ''gpt-4o''\<rparr>) = (''openai'', ''gpt-4o'')"
proof -
  have m: "Model (example_endpoint ''m'' ''k'') = ''openai'' @ CHR ''/'' # ''gpt-4o''"
    by (simp add: example_endpoint_def)
  have s: "CHR ''/'' \<notin> set ''openai''"
    by simp
  have a: "ParseProtocol (example_endpoint ''m'' ''k'') = (''openai'', ''gpt-4o'')"
    using ParseProtocol_splits_at_first_slash [of "example_endpoint ''m'' ''k''"] m s by blast
  have n: "CHR ''/'' \<notin> set (Model ((example_endpoint ''m'' ''k'')\<lparr>Model := ''gpt-4o''\<rparr>))"
    by simp
  have "ParseProtocol ((example_endpoint ''m'' ''k'')\<lparr>Model := ''gpt-4o''\<rparr>)
      = (''openai'', Model ((example_endpoint ''m'' ''k'')\<lparr>Model := ''gpt-4o''\<rparr>))"
    using ParseProtocol_splits_at_first_slash [of "(example_endpoint ''m'' ''k'')\<lparr>Model := ''gpt-4o''\<rparr>"] n
    by blast
  then have b: "ParseProtocol ((example_endpoint ''m'' ''k'')\<lparr>Model := ''gpt-4o''\<rparr>) = (''openai'', ''gpt-4o'')"
    by simp
  from m s a n b show ?thesis by blast
qed

section \<open>Cooldown and fallback\<close>

text \<open>
  C3.  With the default duration table, after \<open>recordFailure(id, RateLimit, t0)\<close> the
  endpoint is suppressed until \<open>t0 + 60\<close>: it is not eligible at \<open>t0 + 59\<close> seconds and
  eligible at \<open>t0 + 61\<close> seconds.
\<close>

theorem rate_limit_cooldown_is_60_seconds:
  assumes "durationFor tr = default_durationFor"
  shows "isEligible (recordFailure tr ident RateLimit t0) ident (t0 + 59) = False
       \<and> isEligible (recordFailure tr ident RateLimit t0) ident (t0 + 61) = True
       \<and> map_option suppressedUntil (entries (recordFailure tr ident RateLimit t0) ident) = Some (t0 + 60)"
  using assms by (simp add: isEligible_def recordFailure_def)

theorem rate_limit_cooldown_is_60_seconds_witness:
  "durationFor (NewCooldownTracker default_durationFor :: string CooldownTracker) = default_durationFor
   \<and> isEligible (recordFailure (NewCooldownTracker default_durationFor) ''id'' RateLimit 1000) ''id'' 1059 = False
   \<and> isEligible (recordFailure (NewCooldownTracker default_durationFor) ''id'' RateLimit 1000) ''id'' 1061 = True"
  using rate_limit_cooldown_is_60_seconds
    [of "NewCooldownTracker default_durationFor :: string CooldownTracker" "''id''" 1000]
  by (simp add: NewCooldownTracker_def)

text \<open>
  C2.  For a chain of three candidates whose primary resolves to an eligible endpoint on
  which \<open>work\<close> fails with an error classified as \<open>FormatError\<close>, \<open>execute\<close> returns that
  classified error; \<open>work\<close> has been invoked exactly once, for the primary, and never for
  the second or third candidate, and the cooldown state is untouched.
\<close>

theorem non_retriable_short_circuit:
  assumes "GetModelConfig (registry st) primary = (Inr ep, reg')"
    and "isEligible (tracker st) (endpointIdentity ep) (clock st)"
    and "work ep (clock st) = (Inl rawError, el)"
    and "kind_of rules rawError = FormatError"
  shows "fst (execute rules work primary [second, third] st) = Failed FormatError rawError
       \<and> invoked (snd (execute rules work primary [second, third] st)) = invoked st @ [(primary, ep)]
       \<and> tracker (snd (execute rules work primary [second, third] st)) = tracker st"
  using assms by (simp add: execute_def classify_def)

theorem non_retriable_short_circuit_witness:
  "GetModelConfig (registry example_state) ''p'' = (Inr (example_endpoint ''p'' ''k1''), registry example_state)
   \<and> isEligible (tracker example_state) (endpointIdentity (example_endpoint ''p'' ''k1'')) (clock example_state)
   \<and> failing_work (example_endpoint ''p'' ''k1'') (clock example_state) = (Inl ''string should match pattern'', 1)
   \<and> kind_of example_rules ''string should match pattern'' = FormatError
   \<and> fst (execute example_rules failing_work ''p'' [''f1'', ''f2''] example_state)
       = Failed FormatError ''string should match pattern''
   \<and> invoked (snd (execute example_rules failing_work ''p'' [''f1'', ''f2''] example_state))
       = [(''p'', example_endpoint ''p'' ''k1'')]"
proof -
  have g: "GetModelConfig (registry example_state) ''p'' = (Inr (example_endpoint ''p'' ''k1''), registry example_state)"
    by (rule example_state_resolve)
  have e: "isEligible (tracker example_state) (endpointIdentity (example_endpoint ''p'' ''k1'')) (clock example_state)"
    by (simp add: example_state_def isEligible_def NewCooldownTracker_def)
  have w: "failing_work (example_endpoint ''p'' ''k1'') (clock example_state) = (Inl ''string should match pattern'', 1)"
    by (simp add: failing_work_def)
  have k: "kind_of example_rules ''string should match pattern'' = FormatError"
    by (simp add: example_rules_def)
  have i: "invoked example_state = []"
    by (simp add: example_state_def)
  show ?thesis
    using non_retriable_short_circuit
      [where work = failing_work and st = example_state and second = "''f1''" and third = "''f2''",
       OF g e w k]
      g e w k i by simp
qed

end
